theory Spec2Isabelle
  imports Main "HOL-Library.Word"
begin

section \<open>The asyncio XBee driver: xbee/asyncio/base.py\<close>

text \<open>
  The module defines one class, \<^verbatim>\<open>XBeeBase\<close>, with the methods
  \<^verbatim>\<open>__init__\<close>, \<^verbatim>\<open>halt\<close>, \<^verbatim>\<open>wait_read_frame\<close> and
  \<^verbatim>\<open>data_received\<close>. It uses the frame assembler \<^verbatim>\<open>APIFrame\<close> of
  \<^verbatim>\<open>xbee.frame\<close> and the method \<^verbatim>\<open>_split_response\<close> of its superclass,
  neither of which is part of the module. The assembler is therefore a parameter of the
  model (a record of its four operations), and so is the split function.
\<close>

type_synonym byte = "8 word"

subsection \<open>The frame assembler, as the driver uses it\<close>

text \<open>
  The only exception \<^verbatim>\<open>data_received\<close> catches (line 115) is
  \<^verbatim>\<open>ValueError\<close>; the specification calls it the checksum error of
  \<^verbatim>\<open>parse\<close>.
\<close>

datatype error = ValueError

text \<open>
  The four operations \<^verbatim>\<open>data_received\<close> calls on a frame:
  the constructor \<^verbatim>\<open>APIFrame(escaped=...)\<close>, \<^verbatim>\<open>fill\<close>,
  \<^verbatim>\<open>remaining_bytes\<close> and \<^verbatim>\<open>parse\<close>, which either raises or leaves
  the payload in the attribute \<^verbatim>\<open>data\<close>.
\<close>

record 'f assembler =
  new_frame :: "bool \<Rightarrow> 'f"
  fill :: "'f \<Rightarrow> byte \<Rightarrow> 'f"
  remaining_bytes :: "'f \<Rightarrow> int"
  parse :: "'f \<Rightarrow> error + byte list"

text \<open>
  Modelled from the spec: the constant \<^verbatim>\<open>APIFrame.START_BYTE\<close>, the start
  marker of the wire format, \<^verbatim>\<open>7E\<close> in the specification's concrete scenario.
\<close>

definition START_BYTE :: byte where
  "START_BYTE = 0x7E"

subsection \<open>The driver's state\<close>

text \<open>
  The fields of an \<^verbatim>\<open>XBeeBase\<close> object that the module reads and writes.
  \<^verbatim>\<open>_callback\<close>, \<^verbatim>\<open>_error_callback\<close> and \<^verbatim>\<open>_escaped\<close> are set
  by the superclass constructor; of the two callbacks only whether one is registered matters
  here. A Future is an identifier: \<open>futures_made\<close> counts the Futures stored in
  \<^verbatim>\<open>_future\<close> so far and gives the next identifier, and \<open>resolved\<close> lists the
  \<^verbatim>\<open>set_result\<close> calls in order. The last three fields record the other effects:
  the arguments of the calls of the callback, those of the error callback, and the lines
  printed.
\<close>

record ('f, 'i) xbee =
  callback :: bool
  error_callback :: bool
  escaped :: bool
  frame :: "'f option"
  data :: "byte list"
  future :: "nat option"
  queue :: "'i list"
  futures_made :: nat
  resolved :: "(nat \<times> 'i) list"
  called :: "'i list"
  error_called :: "error list"
  printed :: "string list"

text \<open>\<^verbatim>\<open>__init__\<close>, lines 57 to 60, after the superclass constructor.\<close>

definition init :: "bool \<Rightarrow> bool \<Rightarrow> bool \<Rightarrow> ('f, 'i) xbee" where
  "init cb err esc =
     \<lparr>callback = cb, error_callback = err, escaped = esc, frame = None, data = [],
      future = None, queue = [], futures_made = 0, resolved = [], called = [],
      error_called = [], printed = []\<rparr>"

text \<open>\<^verbatim>\<open>halt\<close>, lines 65 to 70: a test of the callback with an empty body.\<close>

definition halt :: "('f, 'i) xbee \<Rightarrow> ('f, 'i) xbee" where
  "halt st = (if callback st then st else st)"

text \<open>
  \<^verbatim>\<open>wait_read_frame\<close>, lines 72 to 82, up to its first suspension. With a
  non-empty queue the Future is local and resolved on the spot, so awaiting it returns the
  oldest entry at once. Otherwise a new Future is stored in \<^verbatim>\<open>_future\<close>, whatever
  was there, and the caller is suspended on it.
\<close>

datatype 'i pull = Returned 'i | Awaiting nat

definition wait_read_frame :: "('f, 'i) xbee \<Rightarrow> 'i pull \<times> ('f, 'i) xbee" where
  "wait_read_frame st =
     (case queue st of
        x # rest \<Rightarrow> (Returned x, st\<lparr>queue := rest\<rparr>)
      | [] \<Rightarrow>
          (Awaiting (futures_made st),
           st\<lparr>future := Some (futures_made st), futures_made := futures_made st + 1\<rparr>))"

text \<open>
  Lines 88 to 92: the scan for the start marker. The result is the buffer from the first
  marker on, or \<open>None\<close> when the loop ends without a \<^verbatim>\<open>break\<close>.
\<close>

fun find_start :: "byte list \<Rightarrow> byte list option" where
  "find_start [] = None"
| "find_start (b # bs) = (if b = START_BYTE then Some (b # bs) else find_start bs)"

text \<open>
  Lines 97 to 101: the loop that feeds the buffer to the frame, one byte per call of
  \<^verbatim>\<open>fill\<close>, while bytes are left and the frame needs some. The result is the
  frame and the bytes not consumed, \<^verbatim>\<open>self._data[i:]\<close>.
\<close>

fun fill_loop :: "'f assembler \<Rightarrow> 'f \<Rightarrow> byte list \<Rightarrow> 'f \<times> byte list" where
  "fill_loop ops f [] = (f, [])"
| "fill_loop ops f (b # bs) =
     (if remaining_bytes ops f > 0 then fill_loop ops (fill ops f b) bs else (f, b # bs))"

text \<open>
  Lines 108 to 114: the hand-over of a frame's info. The callback if there is one, else
  the pending Future, which is resolved and cleared, else the queue.
\<close>

definition deliver :: "'i \<Rightarrow> ('f, 'i) xbee \<Rightarrow> ('f, 'i) xbee" where
  "deliver info st =
     (if callback st then st\<lparr>called := called st @ [info]\<rparr>
      else case future st of
        Some fid \<Rightarrow> st\<lparr>future := None, resolved := resolved st @ [(fid, info)]\<rparr>
      | None \<Rightarrow> st\<lparr>queue := queue st @ [info]\<rparr>)"

text \<open>Lines 85 to 92: the chunk is appended, and with no frame in progress the scan runs.\<close>

definition sync :: "'f assembler \<Rightarrow> ('f, 'i) xbee \<Rightarrow> byte list \<Rightarrow> ('f, 'i) xbee" where
  "sync ops st chunk =
     (let st1 = st\<lparr>data := data st @ chunk\<rparr>
      in case frame st1 of
        Some f \<Rightarrow> st1
      | None \<Rightarrow>
          (case find_start (data st1) of
             None \<Rightarrow> st1
           | Some d \<Rightarrow> st1\<lparr>frame := Some (new_frame ops (escaped st1)), data := d\<rparr>))"

text \<open>
  Lines 103 to 118, on the frame \<open>f\<close> that the loop has left in
  \<^verbatim>\<open>self._frame\<close>: when it needs no more bytes it is parsed, its data is split,
  and the info is handed over unless the data is empty; a \<^verbatim>\<open>ValueError\<close> is
  caught and a line is printed; in both cases \<^verbatim>\<open>self._frame\<close> is cleared.
  \<open>split\<close> is \<^verbatim>\<open>_split_response\<close>, which the specification takes as
  supplied and deterministic.
\<close>

definition finish_frame ::
    "'f assembler \<Rightarrow> (byte list \<Rightarrow> 'i) \<Rightarrow> 'f \<Rightarrow> ('f, 'i) xbee \<Rightarrow> ('f, 'i) xbee" where
  "finish_frame ops split f st =
     (if remaining_bytes ops f = 0 then
        (case parse ops f of
           Inr payload \<Rightarrow>
             (let info = split payload
              in (if payload \<noteq> [] then deliver info st else st)\<lparr>frame := None\<rparr>)
         | Inl ValueError \<Rightarrow>
             st\<lparr>printed := printed st @ [''Bad frame checksum''], frame := None\<rparr>)
      else st)"

text \<open>
  \<^verbatim>\<open>data_received\<close>, lines 84 to 118: the scan, the early return of line 95
  when there is still no frame, the loop, the trimming of the buffer, and the completion.
\<close>

definition data_received ::
    "'f assembler \<Rightarrow> (byte list \<Rightarrow> 'i) \<Rightarrow> ('f, 'i) xbee \<Rightarrow> byte list \<Rightarrow> ('f, 'i) xbee" where
  "data_received ops split st chunk =
     (let st2 = sync ops st chunk
      in case frame st2 of
        None \<Rightarrow> st2
      | Some f \<Rightarrow>
          (let (f', rest) = fill_loop ops f (data st2)
           in finish_frame ops split f' (st2\<lparr>frame := Some f', data := rest\<rparr>)))"

subsection \<open>The assembler of the specification\<close>

text \<open>
  Modelled from the spec: the class \<^verbatim>\<open>APIFrame\<close> of \<^verbatim>\<open>xbee.frame\<close>,
  which is not part of the module. Section 4.1 of the specification: the assembler takes
  bytes one at a time, already unescaped, in the order start marker, two bytes of
  big-endian length, payload, checksum; the checksum is \<^verbatim>\<open>0xFF\<close> minus the low byte
  of the sum of the payload. A frame is the bytes it has been given so far and the
  escaped-mode flag it was made with. The specification says that the source has no bound
  on the declared length, so \<^verbatim>\<open>fill\<close> has no failure here.
\<close>

record APIFrame =
  raw_data :: "byte list"
  frame_escaped :: bool

text \<open>
  Modelled from the spec: the constructor, which makes an empty frame that carries the
  escaped-mode flag.
\<close>

definition APIFrame_new :: "bool \<Rightarrow> APIFrame" where
  "APIFrame_new esc = \<lparr>raw_data = [], frame_escaped = esc\<rparr>"

text \<open>
  Modelled from the spec: \<^verbatim>\<open>fill\<close> takes one byte, already unescaped, and
  advances the frame by it.
\<close>

definition APIFrame_fill :: "APIFrame \<Rightarrow> byte \<Rightarrow> APIFrame" where
  "APIFrame_fill f b = f\<lparr>raw_data := raw_data f @ [b]\<rparr>"

text \<open>
  Modelled from the spec: the number of wire bytes still needed. Until the length field is
  read it is what the header still needs; \<^verbatim>\<open>data_received\<close> only tests the sign.
\<close>

definition APIFrame_remaining_bytes :: "APIFrame \<Rightarrow> int" where
  "APIFrame_remaining_bytes f =
     (case raw_data f of
        s # hi # lo # body \<Rightarrow>
          int (3 + (256 * unat hi + unat lo) + 1) - int (length (raw_data f))
      | _ \<Rightarrow> 3 - int (length (raw_data f)))"

text \<open>Modelled from the spec: the checksum of a payload.\<close>

definition checksum :: "byte list \<Rightarrow> byte" where
  "checksum payload = 0xFF - sum_list payload"

text \<open>
  Modelled from the spec: \<^verbatim>\<open>parse\<close> recomputes the checksum over the received
  payload and compares it with the trailing byte. On a frame that is not complete, where
  \<^verbatim>\<open>data_received\<close> never calls it, it fails.
\<close>

definition APIFrame_parse :: "APIFrame \<Rightarrow> error + byte list" where
  "APIFrame_parse f =
     (case raw_data f of
        s # hi # lo # body \<Rightarrow>
          (let n = 256 * unat hi + unat lo
           in if drop n body = [checksum (take n body)] then Inr (take n body)
              else Inl ValueError)
      | _ \<Rightarrow> Inl ValueError)"

text \<open>
  Modelled from the spec: the four operations of \<^verbatim>\<open>APIFrame\<close> together, as the
  assembler that \<^verbatim>\<open>data_received\<close> is given.
\<close>

definition APIFrame_ops :: "APIFrame assembler" where
  "APIFrame_ops =
     \<lparr>new_frame = APIFrame_new, fill = APIFrame_fill,
      remaining_bytes = APIFrame_remaining_bytes, parse = APIFrame_parse\<rparr>"

text \<open>
  Modelled from the spec: the wire image of a payload, section 6 of the specification:
  \<^verbatim>\<open>START(1) | LENGTH(2, big-endian) | PAYLOAD(LENGTH) | CHECKSUM(1)\<close>. It is a
  valid frame when the length fits the two bytes of the field.
\<close>

definition wire_frame :: "byte list \<Rightarrow> byte list" where
  "wire_frame payload =
     START_BYTE # of_nat (length payload div 256) # of_nat (length payload mod 256)
       # payload @ [checksum payload]"

subsection \<open>Runs of the driver\<close>

text \<open>
  What can happen to a driver, one event at a time: a consumer calls
  \<^verbatim>\<open>wait_read_frame\<close>, the transport calls \<^verbatim>\<open>data_received\<close> with a
  chunk, or \<^verbatim>\<open>halt\<close> is called. The scheduler is cooperative, so the events do
  not overlap, and a run is a list of them.
\<close>

datatype op = Pull | Receive "byte list" | Halt

fun step :: "'f assembler \<Rightarrow> (byte list \<Rightarrow> 'i) \<Rightarrow> ('f, 'i) xbee \<Rightarrow> op \<Rightarrow> ('f, 'i) xbee" where
  "step ops split st Pull = snd (wait_read_frame st)"
| "step ops split st (Receive chunk) = data_received ops split st chunk"
| "step ops split st Halt = halt st"

definition run :: "'f assembler \<Rightarrow> (byte list \<Rightarrow> 'i) \<Rightarrow> ('f, 'i) xbee \<Rightarrow> op list \<Rightarrow> ('f, 'i) xbee" where
  "run ops split st trace = foldl (step ops split) st trace"

text \<open>Successive calls of \<^verbatim>\<open>data_received\<close>, one per chunk.\<close>

definition feed ::
    "'f assembler \<Rightarrow> (byte list \<Rightarrow> 'i) \<Rightarrow> ('f, 'i) xbee \<Rightarrow> byte list list \<Rightarrow> ('f, 'i) xbee" where
  "feed ops split st chunks = foldl (data_received ops split) st chunks"

text \<open>The invariant of the delivery channel: no pending Future beside a non-empty queue.\<close>

definition waiter_excludes_backlog :: "('f, 'i) xbee \<Rightarrow> bool" where
  "waiter_excludes_backlog st = (future st = None \<or> queue st = [])"

text \<open>
  The part of the state that a hand-over can change: the calls of the callback, the waiter
  slot, the Futures resolved and the queue.
\<close>

definition channel :: "('f, 'i) xbee \<Rightarrow> 'i list \<times> nat option \<times> (nat \<times> 'i) list \<times> 'i list" where
  "channel st = (called st, future st, resolved st, queue st)"

text \<open>
  A count of the infos handed over: the calls of the callback, the Futures resolved and
  the entries of the queue. \<^verbatim>\<open>data_received\<close> changes it only by handing an
  info over.
\<close>

definition delivered :: "('f, 'i) xbee \<Rightarrow> nat" where
  "delivered st = length (called st) + length (resolved st) + length (queue st)"

text \<open>
  An assembler that only records the bytes passed to \<^verbatim>\<open>fill\<close>: its frame is
  the list of them, and it always needs one more. It shows what
  \<^verbatim>\<open>data_received\<close> feeds.
\<close>

definition fill_recorder :: "(byte list) assembler" where
  "fill_recorder =
     \<lparr>new_frame = (\<lambda>esc. []), fill = (\<lambda>f b. f @ [b]),
      remaining_bytes = (\<lambda>f. 1), parse = (\<lambda>f. Inr f)\<rparr>"

text \<open>
  The state after lines 107 to 114 for a parsed payload: unchanged when the payload is
  empty, else with its info handed over.
\<close>

definition handed_over :: "(byte list \<Rightarrow> 'i) \<Rightarrow> byte list \<Rightarrow> ('f, 'i) xbee \<Rightarrow> ('f, 'i) xbee" where
  "handed_over split payload st = (if payload = [] then st else deliver (split payload) st)"

text \<open>
  The state in which the frame in progress holds the bytes \<open>p\<close> of a frame that began
  in state \<open>st\<close>; no frame is made before the first byte.
\<close>

definition in_progress :: "(APIFrame, 'i) xbee \<Rightarrow> byte list \<Rightarrow> (APIFrame, 'i) xbee" where
  "in_progress st p =
     (if p = [] then st else st\<lparr>frame := Some \<lparr>raw_data = p, frame_escaped = escaped st\<rparr>\<rparr>)"

section \<open>Properties\<close>

lemmas xbee_defs =
  data_received_def finish_frame_def sync_def deliver_def init_def wait_read_frame_def halt_def
  START_BYTE_def

lemmas APIFrame_defs =
  APIFrame_ops_def APIFrame_new_def APIFrame_fill_def APIFrame_remaining_bytes_def
  APIFrame_parse_def checksum_def

subsection \<open>The delivery channel\<close>

lemma web_frame_data [simp]:
  "waiter_excludes_backlog (st\<lparr>frame := f\<rparr>) = waiter_excludes_backlog st"
  "waiter_excludes_backlog (st\<lparr>data := d\<rparr>) = waiter_excludes_backlog st"
  "waiter_excludes_backlog (st\<lparr>printed := p\<rparr>) = waiter_excludes_backlog st"
  by (simp_all add: waiter_excludes_backlog_def)

lemma web_deliver:
  "waiter_excludes_backlog st \<Longrightarrow> waiter_excludes_backlog (deliver info st)"
  by (auto simp: waiter_excludes_backlog_def deliver_def split: option.splits)

lemma web_sync:
  "waiter_excludes_backlog (sync ops st chunk) = waiter_excludes_backlog st"
  by (simp add: sync_def Let_def split: option.splits)

lemma web_finish:
  "waiter_excludes_backlog st \<Longrightarrow> waiter_excludes_backlog (finish_frame ops split f st)"
  by (simp add: finish_frame_def Let_def web_deliver split: sum.splits error.splits)

lemma web_data_received:
  "waiter_excludes_backlog st \<Longrightarrow> waiter_excludes_backlog (data_received ops split st chunk)"
  by (simp add: data_received_def Let_def web_sync web_finish split: option.splits prod.splits)

lemma web_wait_read_frame:
  "waiter_excludes_backlog st \<Longrightarrow> waiter_excludes_backlog (snd (wait_read_frame st))"
  by (auto simp: waiter_excludes_backlog_def wait_read_frame_def split: list.splits)

lemma web_step:
  "waiter_excludes_backlog st \<Longrightarrow> waiter_excludes_backlog (step ops split st x)"
  by (cases x) (simp_all add: web_data_received web_wait_read_frame halt_def)

lemma web_run:
  "waiter_excludes_backlog st \<Longrightarrow> waiter_excludes_backlog (run ops split st trace)"
  unfolding run_def by (induction trace arbitrary: st) (simp_all add: web_step)

text \<open>
  C4: in every state a driver reaches from its initial state, by any interleaving of
  \<^verbatim>\<open>wait_read_frame\<close> calls, \<^verbatim>\<open>data_received\<close> calls (and so frame
  completions) and \<^verbatim>\<open>halt\<close> calls, whatever the assembler and the split function,
  a pending waiter and a non-empty backlog do not coexist: \<^verbatim>\<open>_future\<close> is set only
  while \<^verbatim>\<open>_queue\<close> is empty.
\<close>

theorem waiter_backlog_exclusive:
  "waiter_excludes_backlog (run ops split (init cb err esc) trace)"
  by (rule web_run) (simp add: waiter_excludes_backlog_def init_def)

text \<open>
  C5, as the code has it: \<^verbatim>\<open>halt\<close> changes nothing. A waiter stays in the slot,
  unresolved; a later \<^verbatim>\<open>wait_read_frame\<close> does what it would have done without
  the halt; a second \<^verbatim>\<open>halt\<close> has no further effect.
\<close>

theorem halt_is_noop:
  "halt st = st \<and> halt (halt st) = halt st \<and> wait_read_frame (halt st) = wait_read_frame st"
  by (simp add: halt_def)

text \<open>
  C5 fails as stated: a consumer suspends on Future 0 of a new driver, then
  \<^verbatim>\<open>halt\<close> is called. Future 0 is still in the slot and no Future has been
  resolved, so the waiter is not released; and the next \<^verbatim>\<open>wait_read_frame\<close> is not
  rejected, it suspends on Future 1.
\<close>

theorem halt_releases_waiter_counterexample:
  "future (halt (snd (wait_read_frame (init False False False)))) = Some 0
   \<and> resolved (halt (snd (wait_read_frame (init False False False)))) = []
   \<and> fst (wait_read_frame (halt (snd (wait_read_frame (init False False False))))) = Awaiting 1"
  by (simp add: halt_def wait_read_frame_def init_def)

lemma resolved_upd [simp]:
  "resolved (st\<lparr>frame := f\<rparr>) = resolved st"
  "resolved (st\<lparr>data := d\<rparr>) = resolved st"
  by simp_all



lemma callback_sync: "callback (sync ops st chunk) = callback st"
  by (simp add: sync_def Let_def split: option.splits)






subsection \<open>One call of data_received\<close>

lemma delivered_upd [simp]:
  "delivered (st\<lparr>frame := f\<rparr>) = delivered st"
  "delivered (st\<lparr>data := d\<rparr>) = delivered st"
  "delivered (st\<lparr>printed := p\<rparr>) = delivered st"
  by (simp_all add: delivered_def)

lemma delivered_deliver: "delivered (deliver info st) = delivered st + 1"
  by (simp add: delivered_def deliver_def split: option.splits)

lemma delivered_sync: "delivered (sync ops st chunk) = delivered st"
  by (simp add: sync_def Let_def split: option.splits)

lemma delivered_finish: "delivered (finish_frame ops split f st) \<le> delivered st + 1"
  by (simp add: finish_frame_def Let_def delivered_deliver split: sum.splits error.splits)

lemma delivered_data_received:
  "delivered (data_received ops split st chunk) \<le> delivered st + 1"
proof (cases "frame (sync ops st chunk)")
  case None
  then show ?thesis by (simp add: data_received_def delivered_sync)
next
  case (Some f)
  obtain f' rest where fl: "fill_loop ops f (data (sync ops st chunk)) = (f', rest)"
    by (cases "fill_loop ops f (data (sync ops st chunk))")
  have "delivered (finish_frame ops split f' ((sync ops st chunk)\<lparr>frame := Some f', data := rest\<rparr>))
      \<le> delivered ((sync ops st chunk)\<lparr>frame := Some f', data := rest\<rparr>) + 1"
    by (rule delivered_finish)
  then show ?thesis using Some fl by (simp add: data_received_def delivered_sync)
qed

lemma channel_upd [simp]:
  "channel (st\<lparr>frame := f\<rparr>) = channel st"
  "channel (st\<lparr>data := d\<rparr>) = channel st"
  "channel (st\<lparr>printed := p\<rparr>) = channel st"
  by (simp_all add: channel_def)

lemma channel_sync: "channel (sync ops st chunk) = channel st"
  by (simp add: sync_def Let_def split: option.splits)

lemma channel_deliver_cong:
  "callback s = callback t \<Longrightarrow> channel s = channel t \<Longrightarrow>
   channel (deliver info s) = channel (deliver info t)"
  by (simp add: channel_def deliver_def split: option.splits)

lemma channel_finish:
  "channel (finish_frame ops split f st) = channel st
   \<or> (\<exists>info. channel (finish_frame ops split f st) = channel (deliver info st))"
  by (auto simp: finish_frame_def Let_def split: sum.splits error.splits)

lemma channel_data_received:
  "channel (data_received ops split st chunk) = channel st
   \<or> (\<exists>info. channel (data_received ops split st chunk) = channel (deliver info st))"
proof (cases "frame (sync ops st chunk)")
  case None
  then show ?thesis by (simp add: data_received_def channel_sync)
next
  case (Some f)
  obtain f' rest where fl: "fill_loop ops f (data (sync ops st chunk)) = (f', rest)"
    by (cases "fill_loop ops f (data (sync ops st chunk))")
  let ?st3 = "(sync ops st chunk)\<lparr>frame := Some f', data := rest\<rparr>"
  have dr: "data_received ops split st chunk = finish_frame ops split f' ?st3"
    using Some fl by (simp add: data_received_def)
  have c: "channel ?st3 = channel st" by (simp add: channel_sync)
  have cb: "callback ?st3 = callback st" by (simp add: callback_sync)
  have d: "\<And>info. channel (deliver info ?st3) = channel (deliver info st)"
    by (rule channel_deliver_cong [OF cb c])
  from channel_finish [of ops split f' ?st3]
  show ?thesis unfolding dr c d .
qed

lemma error_called_data_received:
  "error_called (data_received ops split st chunk) = error_called st"
proof -
  have s: "error_called (sync ops st chunk) = error_called st"
    by (simp add: sync_def Let_def split: option.splits)
  have d: "\<And>info s. error_called (deliver info s) = error_called (s :: ('a, 'b) xbee)"
    by (simp add: deliver_def split: option.splits)
  have f: "\<And>f s. error_called (finish_frame ops split f s) = error_called s"
    by (simp add: finish_frame_def Let_def d split: sum.splits error.splits)
  show ?thesis
    by (simp add: data_received_def Let_def s f split: option.splits prod.splits)
qed



lemma fill_loop_prefix:
  "\<exists>k\<le>length bs. fill_loop ops f bs = (foldl (fill ops) f (take k bs), drop k bs)"
proof (induction bs arbitrary: f)
  case Nil
  then show ?case by simp
next
  case (Cons b bs)
  show ?case
  proof (cases "remaining_bytes ops f > 0")
    case True
    from Cons.IH [of "fill ops f b"] obtain k where
      k: "k \<le> length bs"
         "fill_loop ops (fill ops f b) bs = (foldl (fill ops) (fill ops f b) (take k bs), drop k bs)"
      by blast
    show ?thesis
      by (rule exI [of _ "Suc k"]) (use True k in simp)
  next
    case False
    show ?thesis
      by (rule exI [of _ 0]) (use False in simp)
  qed
qed

lemma fill_loop_new_frame: "fill_loop (ops\<lparr>new_frame := g\<rparr>) f bs = fill_loop ops f bs"
  by (induction bs arbitrary: f) simp_all

lemma finish_frame_escaped:
  "finish_frame (ops\<lparr>new_frame := g\<rparr>) split f (st\<lparr>escaped := e\<rparr>)
     = (finish_frame ops split f st)\<lparr>escaped := e\<rparr>"
  by (simp add: finish_frame_def deliver_def Let_def split: sum.splits error.splits option.splits)

lemma sync_escaped:
  "sync ops (st\<lparr>escaped := e\<rparr>) chunk
     = (sync (ops\<lparr>new_frame := \<lambda>_. new_frame ops e\<rparr>) st chunk)\<lparr>escaped := e\<rparr>"
  by (simp add: sync_def Let_def split: option.splits)

lemma finish_frame_new_frame:
  "finish_frame (ops\<lparr>new_frame := g\<rparr>) split f st = finish_frame ops split f st"
  by (simp add: finish_frame_def)

lemma finish_frame_escaped_upd:
  "finish_frame ops split f (st\<lparr>escaped := e\<rparr>) = (finish_frame ops split f st)\<lparr>escaped := e\<rparr>"
  by (simp add: finish_frame_def deliver_def Let_def split: sum.splits error.splits option.splits)

lemma data_received_escaped:
  "data_received ops split (st\<lparr>escaped := e\<rparr>) chunk
     = (data_received (ops\<lparr>new_frame := \<lambda>_. new_frame ops e\<rparr>) split st chunk)\<lparr>escaped := e\<rparr>"
proof -
  let ?ops' = "ops\<lparr>new_frame := \<lambda>_. new_frame ops e\<rparr>"
  let ?s = "sync ?ops' st chunk"
  show ?thesis
  proof (cases "frame ?s")
    case None
    then show ?thesis by (simp add: data_received_def sync_escaped)
  next
    case (Some f)
    obtain f' rest where fl: "fill_loop ops f (data ?s) = (f', rest)"
      by (cases "fill_loop ops f (data ?s)")
    have comm: "?s\<lparr>escaped := e, frame := Some f', data := rest\<rparr>
        = (?s\<lparr>frame := Some f', data := rest\<rparr>)\<lparr>escaped := e\<rparr>"
      by (rule xbee.equality) simp_all
    have "finish_frame ops split f' (?s\<lparr>escaped := e, frame := Some f', data := rest\<rparr>)
        = (finish_frame ?ops' split f' (?s\<lparr>frame := Some f', data := rest\<rparr>))\<lparr>escaped := e\<rparr>"
      unfolding comm by (simp only: finish_frame_escaped_upd finish_frame_new_frame)
    then show ?thesis using Some fl
      by (simp add: data_received_def sync_escaped fill_loop_new_frame)
  qed
qed

text \<open>
  C7, as the code has it: \<^verbatim>\<open>data_received\<close> decodes no escapes. The loop of lines
  97 to 101 passes to \<^verbatim>\<open>fill\<close> the first \<open>k\<close> raw bytes of the buffer, one per
  call, unchanged and in order, and leaves the others in the buffer; this holds for every
  assembler and every buffer, a raw escape marker included. The driver's escaped flag
  reaches only the constructor of the frame: a driver with the flag set to \<open>e\<close> does
  what the same driver does with an assembler whose constructor is always given \<open>e\<close>.
\<close>

theorem fill_gets_raw_bytes:
  "(\<exists>k\<le>length bs. fill_loop ops f bs = (foldl (fill ops) f (take k bs), drop k bs))
   \<and> data_received ops split (st\<lparr>escaped := e\<rparr>) chunk
       = (data_received (ops\<lparr>new_frame := \<lambda>_. new_frame ops e\<rparr>) split st chunk)
           \<lparr>escaped := e\<rparr>"
  by (rule conjI [OF fill_loop_prefix data_received_escaped])

text \<open>
  C7 fails as stated: in escaped mode, the bytes \<^verbatim>\<open>7E 7D 31\<close> are fed to a driver
  whose assembler records what \<^verbatim>\<open>fill\<close> receives. It receives the raw escape
  marker \<^verbatim>\<open>7D\<close> and then \<^verbatim>\<open>31\<close>, not the one decoded byte
  \<^verbatim>\<open>11\<close>.
\<close>

theorem raw_escape_marker_counterexample:
  "frame (data_received fill_recorder (\<lambda>p. p) (init False False True) [0x7E, 0x7D, 0x31])
     = Some [0x7E, 0x7D, 0x31]"
  by (simp add: xbee_defs fill_recorder_def)

subsection \<open>Frames of the wire format\<close>

lemma declared_length:
  assumes "n < 65536"
  shows "256 * unat (of_nat (n div 256) :: byte) + unat (of_nat (n mod 256) :: byte) = n"
proof -
  have "n div 256 < 256" using assms by simp
  then have "unat (of_nat (n div 256) :: byte) = n div 256"
    by (simp add: unat_of_nat)
  moreover have "unat (of_nat (n mod 256) :: byte) = n mod 256"
    by (simp add: unat_of_nat)
  ultimately show ?thesis by simp
qed

lemma length_wire_frame: "length (wire_frame payload) = length payload + 4"
  by (simp add: wire_frame_def)

lemma remaining_prefix:
  assumes n: "length payload < 65536" and w: "p @ s = wire_frame payload"
  shows "APIFrame_remaining_bytes \<lparr>raw_data = p, frame_escaped = e\<rparr>
           = (if length p < 3 then 3 - int (length p) else int (length s))"
proof (cases p)
  case Nil
  then show ?thesis by (simp add: APIFrame_remaining_bytes_def)
next
  case (Cons a p1)
  note p = this
  show ?thesis
  proof (cases p1)
    case Nil
    then show ?thesis using p by (simp add: APIFrame_remaining_bytes_def)
  next
    case (Cons b p2)
    note p1 = this
    show ?thesis
    proof (cases p2)
      case Nil
      then show ?thesis using p p1 by (simp add: APIFrame_remaining_bytes_def)
    next
      case (Cons c body)
      have hi: "b = of_nat (length payload div 256)" and lo: "c = of_nat (length payload mod 256)"
        and rest: "body @ s = payload @ [checksum payload]"
        using w p p1 Cons by (simp_all add: wire_frame_def)
      have "length body + length s = length payload + 1"
        using arg_cong [OF rest, of length] by simp
      then have len: "int (length s) = int (3 + length payload + 1) - int (length p)"
        using p p1 Cons by simp
      have dl: "256 * unat b + unat c = length payload"
        unfolding hi lo by (rule declared_length [OF n])
      have "APIFrame_remaining_bytes \<lparr>raw_data = p, frame_escaped = e\<rparr>
          = int (3 + (256 * unat b + unat c) + 1) - int (length p)"
        using p p1 Cons by (simp add: APIFrame_remaining_bytes_def)
      also have "\<dots> = int (length s)"
        by (simp only: dl len)
      finally show ?thesis using p p1 Cons by simp
    qed
  qed
qed

lemma remaining_positive:
  assumes "length payload < 65536" and "p @ s = wire_frame payload" and "s \<noteq> []"
  shows "remaining_bytes APIFrame_ops \<lparr>raw_data = p, frame_escaped = e\<rparr> > 0"
  using remaining_prefix [OF assms(1,2), of e] assms(3)
  by (simp add: APIFrame_ops_def)

lemma remaining_complete:
  assumes "length payload < 65536"
  shows "remaining_bytes APIFrame_ops \<lparr>raw_data = wire_frame payload, frame_escaped = e\<rparr> = 0"
  using remaining_prefix [OF assms, of "wire_frame payload" "[]" e]
  by (simp add: APIFrame_ops_def length_wire_frame)

lemma fill_step:
  "fill APIFrame_ops \<lparr>raw_data = p, frame_escaped = e\<rparr> b = \<lparr>raw_data = p @ [b], frame_escaped = e\<rparr>"
  by (simp add: APIFrame_ops_def APIFrame_fill_def)

lemma fill_loop_partial:
  assumes "length payload < 65536"
  shows "p @ c @ s = wire_frame payload \<Longrightarrow> s \<noteq> [] \<Longrightarrow>
    fill_loop APIFrame_ops \<lparr>raw_data = p, frame_escaped = e\<rparr> c
      = (\<lparr>raw_data = p @ c, frame_escaped = e\<rparr>, [])"
proof (induction c arbitrary: p)
  case Nil
  then show ?case by simp
next
  case (Cons b c)
  have pos: "remaining_bytes APIFrame_ops \<lparr>raw_data = p, frame_escaped = e\<rparr> > 0"
    using remaining_positive [OF assms, of p "(b # c) @ s" e] Cons.prems by simp
  have "fill_loop APIFrame_ops \<lparr>raw_data = p @ [b], frame_escaped = e\<rparr> c
      = (\<lparr>raw_data = (p @ [b]) @ c, frame_escaped = e\<rparr>, [])"
    using Cons.prems by (intro Cons.IH) simp_all
  then show ?case using pos by (simp add: fill_step)
qed

lemma fill_loop_complete:
  assumes "length payload < 65536"
  shows "p @ c = wire_frame payload \<Longrightarrow>
    fill_loop APIFrame_ops \<lparr>raw_data = p, frame_escaped = e\<rparr> (c @ rest)
      = (\<lparr>raw_data = wire_frame payload, frame_escaped = e\<rparr>, rest)"
proof (induction c arbitrary: p)
  case Nil
  then show ?case using remaining_complete [OF assms, of e]
    by (cases rest) simp_all
next
  case (Cons b c)
  have pos: "remaining_bytes APIFrame_ops \<lparr>raw_data = p, frame_escaped = e\<rparr> > 0"
    using remaining_positive [OF assms, of p "b # c" e] Cons.prems by simp
  have "fill_loop APIFrame_ops \<lparr>raw_data = p @ [b], frame_escaped = e\<rparr> (c @ rest)
      = (\<lparr>raw_data = wire_frame payload, frame_escaped = e\<rparr>, rest)"
    using Cons.prems by (intro Cons.IH) simp
  then show ?case using pos by (simp add: fill_step)
qed

lemma parse_wire_frame:
  assumes "length payload < 65536"
  shows "parse APIFrame_ops \<lparr>raw_data = wire_frame payload, frame_escaped = e\<rparr> = Inr payload"
  by (simp add: APIFrame_ops_def APIFrame_parse_def wire_frame_def declared_length [OF assms])

lemma find_start_marker: "find_start (START_BYTE # bs) = Some (START_BYTE # bs)"
  by simp

lemma wire_frame_Cons: "\<exists>bs. wire_frame payload = START_BYTE # bs"
  by (simp add: wire_frame_def)

lemma prefix_Cons:
  assumes "c @ s = wire_frame payload" and "c \<noteq> []"
  shows "\<exists>bs. c = START_BYTE # bs"
  using assms by (cases c) (simp_all add: wire_frame_def)

lemma deliver_frame_data:
  "deliver info (st\<lparr>frame := f, data := d\<rparr>) = (deliver info st)\<lparr>frame := f, data := d\<rparr>"
  by (simp add: deliver_def split: option.splits)

lemma handed_over_frame_data:
  "handed_over split payload (st\<lparr>frame := f, data := d\<rparr>)
     = (handed_over split payload st)\<lparr>frame := f, data := d\<rparr>"
  by (simp add: handed_over_def deliver_frame_data)

lemma frame_handed_over [simp]: "frame (handed_over split payload st) = frame st"
  by (simp add: handed_over_def deliver_def split: option.splits)

lemma data_handed_over [simp]: "data (handed_over split payload st) = data st"
  by (simp add: handed_over_def deliver_def split: option.splits)

lemma finish_wire_frame:
  assumes "length payload < 65536"
  shows "finish_frame APIFrame_ops split \<lparr>raw_data = wire_frame payload, frame_escaped = e\<rparr> st
           = (handed_over split payload st)\<lparr>frame := None\<rparr>"
  by (simp add: finish_frame_def handed_over_def remaining_complete [OF assms]
      parse_wire_frame [OF assms])

lemma finish_partial:
  assumes "length payload < 65536" and "p @ s = wire_frame payload" and "s \<noteq> []"
  shows "finish_frame APIFrame_ops split \<lparr>raw_data = p, frame_escaped = e\<rparr> st = st"
  using remaining_positive [OF assms, of e] by (simp add: finish_frame_def)

lemma new_frame_APIFrame:
  "new_frame APIFrame_ops e = \<lparr>raw_data = [], frame_escaped = e\<rparr>"
  by (simp add: APIFrame_ops_def APIFrame_new_def)

lemma sync_fresh:
  assumes "frame st = None" and "data st = []"
  shows "sync APIFrame_ops st (START_BYTE # bs)
     = st\<lparr>data := START_BYTE # bs,
          frame := Some \<lparr>raw_data = [], frame_escaped = escaped st\<rparr>, data := START_BYTE # bs\<rparr>"
  using assms by (simp add: sync_def new_frame_APIFrame)

lemma sync_in_progress:
  assumes "data st = []"
  shows "sync ops (st\<lparr>frame := Some f\<rparr>) c = st\<lparr>frame := Some f, data := c\<rparr>"
  using assms by (simp add: sync_def)

lemma received_empty:
  assumes "frame st = None" and "data st = []"
  shows "data_received ops split st [] = st"
  using assms by (simp add: data_received_def sync_def)

lemma received_partial:
  assumes n: "length payload < 65536" and st: "frame st = None" "data st = []"
    and w: "p @ c @ s = wire_frame payload" and s: "s \<noteq> []"
  shows "data_received APIFrame_ops split (in_progress st p) c = in_progress st (p @ c)"
proof (cases "p = []")
  case True
  note p = this
  show ?thesis
  proof (cases "c = []")
    case True
    then show ?thesis using p st by (simp add: in_progress_def received_empty)
  next
    case False
    then obtain bs where c: "c = START_BYTE # bs"
      using w p prefix_Cons [of c s payload] by auto
    have fl: "fill_loop APIFrame_ops \<lparr>raw_data = [], frame_escaped = escaped st\<rparr> c
         = (\<lparr>raw_data = c, frame_escaped = escaped st\<rparr>, [])"
      using fill_loop_partial [OF n, of "[]" c s "escaped st"] w s p by simp
    have fin: "\<And>t. finish_frame APIFrame_ops split \<lparr>raw_data = c, frame_escaped = escaped st\<rparr> t = t"
      using finish_partial [OF n, of c s] w s p by simp
    have "data_received APIFrame_ops split st c
        = st\<lparr>data := c, frame := Some \<lparr>raw_data = [], frame_escaped = escaped st\<rparr>, data := c,
             frame := Some \<lparr>raw_data = c, frame_escaped = escaped st\<rparr>, data := []\<rparr>"
      using sync_fresh [OF st, of bs] fl fin by (simp add: data_received_def c [symmetric])
    also have "\<dots> = st\<lparr>frame := Some \<lparr>raw_data = c, frame_escaped = escaped st\<rparr>\<rparr>"
      by (rule xbee.equality) (simp_all add: st)
    finally show ?thesis using p False by (simp add: in_progress_def)
  qed
next
  case False
  let ?e = "escaped st"
  have fl: "fill_loop APIFrame_ops \<lparr>raw_data = p, frame_escaped = ?e\<rparr> c
         = (\<lparr>raw_data = p @ c, frame_escaped = ?e\<rparr>, [])"
    using fill_loop_partial [OF n, of p c s ?e] w s by simp
  have fin: "\<And>t. finish_frame APIFrame_ops split \<lparr>raw_data = p @ c, frame_escaped = ?e\<rparr> t = t"
    using finish_partial [OF n, of "p @ c" s] w s by simp
  have "data_received APIFrame_ops split (st\<lparr>frame := Some \<lparr>raw_data = p, frame_escaped = ?e\<rparr>\<rparr>) c
      = st\<lparr>frame := Some \<lparr>raw_data = p, frame_escaped = ?e\<rparr>, data := c,
           frame := Some \<lparr>raw_data = p @ c, frame_escaped = ?e\<rparr>, data := []\<rparr>"
    using fl fin by (simp add: data_received_def sync_in_progress [OF st(2)])
  also have "\<dots> = st\<lparr>frame := Some \<lparr>raw_data = p @ c, frame_escaped = ?e\<rparr>\<rparr>"
    by (rule xbee.equality) (simp_all add: st)
  finally show ?thesis using False by (simp add: in_progress_def)
qed

lemma received_complete:
  assumes n: "length payload < 65536" and st: "frame st = None" "data st = []"
    and w: "p @ c = wire_frame payload"
  shows "data_received APIFrame_ops split (in_progress st p) (c @ rest)
           = (handed_over split payload st)\<lparr>data := rest\<rparr>"
proof (cases "p = []")
  case True
  then obtain bs where c: "c = START_BYTE # bs"
    using w wire_frame_Cons [of payload] by auto
  let ?e = "escaped st"
  have fl: "fill_loop APIFrame_ops \<lparr>raw_data = [], frame_escaped = ?e\<rparr> (c @ rest)
         = (\<lparr>raw_data = wire_frame payload, frame_escaped = ?e\<rparr>, rest)"
    using fill_loop_complete [OF n, of "[]" c ?e rest] w True by simp
  have "data_received APIFrame_ops split st (c @ rest)
      = (handed_over split payload
          (st\<lparr>data := c @ rest, frame := Some \<lparr>raw_data = [], frame_escaped = ?e\<rparr>,
              data := c @ rest,
              frame := Some \<lparr>raw_data = wire_frame payload, frame_escaped = ?e\<rparr>, data := rest\<rparr>))
         \<lparr>frame := None\<rparr>"
    using sync_fresh [OF st, of "bs @ rest"] fl
    by (simp add: data_received_def c finish_wire_frame [OF n])
  also have "\<dots> = (handed_over split payload st)\<lparr>data := rest\<rparr>"
    by (rule xbee.equality) (simp_all add: st handed_over_def deliver_def split: option.splits)
  finally show ?thesis using True by (simp add: in_progress_def)
next
  case False
  let ?e = "escaped st"
  have fl: "fill_loop APIFrame_ops \<lparr>raw_data = p, frame_escaped = ?e\<rparr> (c @ rest)
         = (\<lparr>raw_data = wire_frame payload, frame_escaped = ?e\<rparr>, rest)"
    using fill_loop_complete [OF n, of p c ?e rest] w by simp
  have "data_received APIFrame_ops split (st\<lparr>frame := Some \<lparr>raw_data = p, frame_escaped = ?e\<rparr>\<rparr>) (c @ rest)
      = (handed_over split payload
          (st\<lparr>frame := Some \<lparr>raw_data = p, frame_escaped = ?e\<rparr>, data := c @ rest,
              frame := Some \<lparr>raw_data = wire_frame payload, frame_escaped = ?e\<rparr>, data := rest\<rparr>))
         \<lparr>frame := None\<rparr>"
    using fl by (simp add: data_received_def sync_in_progress [OF st(2)] finish_wire_frame [OF n])
  also have "\<dots> = (handed_over split payload st)\<lparr>data := rest\<rparr>"
    by (rule xbee.equality) (simp_all add: st handed_over_def deliver_def split: option.splits)
  finally show ?thesis using False by (simp add: in_progress_def)
qed

lemma feed_empties:
  "frame st = None \<Longrightarrow> data st = [] \<Longrightarrow> concat cs = [] \<Longrightarrow> feed ops split st cs = st"
  unfolding feed_def by (induction cs) (simp_all add: received_empty)

lemma feed_wire:
  assumes n: "length payload < 65536" and st: "frame st = None" "data st = []"
  shows "p @ concat chunks = wire_frame payload \<Longrightarrow> concat chunks \<noteq> [] \<Longrightarrow>
    feed APIFrame_ops split (in_progress st p) chunks = handed_over split payload st"
proof (induction chunks arbitrary: p)
  case Nil
  then show ?case by simp
next
  case (Cons c cs)
  show ?case
  proof (cases "concat cs = []")
    case True
    have "p @ c = wire_frame payload"
      using Cons.prems(1) by (simp only: concat.simps True append_Nil2)
    from received_complete [OF n st this, of split "[]"]
    have "data_received APIFrame_ops split (in_progress st p) c
        = (handed_over split payload st)\<lparr>data := []\<rparr>" by simp
    also have "\<dots> = handed_over split payload st"
      by (rule xbee.equality) (simp_all add: st)
    finally have step: "data_received APIFrame_ops split (in_progress st p) c
        = handed_over split payload st" .
    have "feed APIFrame_ops split (handed_over split payload st) cs = handed_over split payload st"
      by (rule feed_empties) (simp_all add: st True)
    then show ?thesis using step by (simp add: feed_def)
  next
    case False
    have w: "p @ c @ concat cs = wire_frame payload" using Cons.prems by simp
    have step: "data_received APIFrame_ops split (in_progress st p) c = in_progress st (p @ c)"
      by (rule received_partial [OF n st w False])
    have "feed APIFrame_ops split (in_progress st (p @ c)) cs = handed_over split payload st"
      using w False by (intro Cons.IH) simp_all
    then show ?thesis using step by (simp add: feed_def)
  qed
qed

text \<open>
  C6: the bytes \<^verbatim>\<open>7E 00 02 23 41 9B\<close>, fed to a new driver with no callback and
  escaped mode off, give one delivered frame, of payload \<^verbatim>\<open>23 41\<close>, and nothing
  else changes. The prefix \<^verbatim>\<open>7E 00 02 23\<close> alone delivers nothing, to no
  consumer, and leaves the frame in progress; the bytes \<^verbatim>\<open>41 9B\<close> after it
  give the same one frame. The split function is the identity here, so that a frame's info
  is its payload.
\<close>

theorem concrete_scenario:
  "data_received APIFrame_ops (\<lambda>p. p) (init False False False)
       [0x7E, 0x00, 0x02, 0x23, 0x41, 0x9B]
     = (init False False False) \<lparr>queue := [[0x23, 0x41]]\<rparr>
   \<and> data_received APIFrame_ops (\<lambda>p. p) (init False False False) [0x7E, 0x00, 0x02, 0x23]
     = (init False False False)
         \<lparr>frame := Some \<lparr>raw_data = [0x7E, 0x00, 0x02, 0x23], frame_escaped = False\<rparr>\<rparr>
   \<and> data_received APIFrame_ops (\<lambda>p. p)
       (data_received APIFrame_ops (\<lambda>p. p) (init False False False) [0x7E, 0x00, 0x02, 0x23])
       [0x41, 0x9B]
     = (init False False False) \<lparr>queue := [[0x23, 0x41]]\<rparr>"
  by (simp add: xbee_defs APIFrame_defs)

text \<open>
  C2: for every payload whose length fits the length field, and every way of cutting its
  wire frame into chunks (any number of them, cut at any byte boundaries, those inside the
  length field and before the checksum byte included), feeding the chunks in order to a
  driver with no frame in progress and an empty buffer leaves it in the same state as
  feeding the whole frame in one chunk: the one info of the payload handed over on the same
  path (callback, waiter or queue), no frame in progress, an empty buffer. For the empty
  payload both hand nothing over.
\<close>

theorem split_frame_reassembly:
  assumes "length payload < 65536" and "frame st = None" and "data st = []"
    and "concat chunks = wire_frame payload"
  shows "feed APIFrame_ops split st chunks
           = data_received APIFrame_ops split st (wire_frame payload)
       \<and> data_received APIFrame_ops split st (wire_frame payload)
           = (if payload = [] then st else deliver (split payload) st)"
proof -
  have ne: "concat chunks \<noteq> []" using assms(4) by (simp add: wire_frame_def)
  have a: "feed APIFrame_ops split st chunks = handed_over split payload st"
    using feed_wire [OF assms(1-3), of "[]" chunks split] assms(4) ne
    by (simp add: in_progress_def)
  have "data_received APIFrame_ops split st (wire_frame payload)
      = (handed_over split payload st)\<lparr>data := []\<rparr>"
    using received_complete [OF assms(1-3), of "[]" "wire_frame payload" split "[]"]
    by (simp add: in_progress_def)
  also have "\<dots> = handed_over split payload st"
    by (rule xbee.equality) (simp_all add: assms)
  finally have b: "data_received APIFrame_ops split st (wire_frame payload)
      = handed_over split payload st" .
  show ?thesis using a b by (simp add: handed_over_def)
qed

text \<open>
  C2, the theorem at an input that satisfies its hypotheses: the frame of payload
  \<^verbatim>\<open>23 41\<close>, cut inside the length field and before the checksum byte.
\<close>

theorem split_frame_reassembly_witness:
  "length [0x23, 0x41 :: byte] < 65536
   \<and> frame (init False False False :: (APIFrame, byte list) xbee) = None
   \<and> data (init False False False :: (APIFrame, byte list) xbee) = []
   \<and> concat [[0x7E, 0x00], [0x02, 0x23, 0x41], [0x9B]] = wire_frame [0x23, 0x41]
   \<and> feed APIFrame_ops (\<lambda>p. p) (init False False False) [[0x7E, 0x00], [0x02, 0x23, 0x41], [0x9B]]
       = data_received APIFrame_ops (\<lambda>p. p) (init False False False) (wire_frame [0x23, 0x41])
   \<and> data_received APIFrame_ops (\<lambda>p. p) (init False False False) (wire_frame [0x23, 0x41])
       = (init False False False) \<lparr>queue := [[0x23, 0x41]]\<rparr>"
proof -
  have h1: "length [0x23, 0x41 :: byte] < 65536" by simp
  have h2: "frame (init False False False :: (APIFrame, byte list) xbee) = None"
    by (simp add: init_def)
  have h3: "data (init False False False :: (APIFrame, byte list) xbee) = []"
    by (simp add: init_def)
  have h4: "concat [[0x7E, 0x00], [0x02, 0x23, 0x41], [0x9B]] = wire_frame [0x23, 0x41]"
    by (simp add: wire_frame_def checksum_def START_BYTE_def)
  have d: "deliver [0x23, 0x41 :: byte] (init False False False :: (APIFrame, byte list) xbee)
      = (init False False False) \<lparr>queue := [[0x23, 0x41]]\<rparr>"
    by (simp add: deliver_def init_def)
  show ?thesis
    using h1 h2 h3 h4 d split_frame_reassembly [OF h1 h2 h3 h4, of "\<lambda>p. p"] by simp
qed

text \<open>
  C9: one call of \<^verbatim>\<open>data_received\<close> hands over at most one info, for every
  assembler, state and chunk: the callback calls, the waiter slot, the resolved Futures and
  the queue are either as before the call or as after one hand-over, and the count of
  hand-overs grows by one at most. And when a valid frame is followed in the chunk by any bytes
  \<open>rest\<close>, which may hold further complete frames, the call hands over that one
  frame and leaves \<open>rest\<close> in the buffer, with no frame in progress: nothing looks at
  it before the next call.
\<close>

theorem one_frame_per_call:
  assumes "length payload < 65536" and "frame st = None" and "data st = []"
  shows "(channel (data_received ops split' st' chunk) = channel st'
          \<or> (\<exists>info. channel (data_received ops split' st' chunk) = channel (deliver info st')))
       \<and> delivered (data_received ops split' st' chunk) \<le> delivered st' + 1
       \<and> data_received APIFrame_ops split st (wire_frame payload @ rest)
           = (if payload = [] then st else deliver (split payload) st)\<lparr>data := rest\<rparr>"
proof (intro conjI)
  show "channel (data_received ops split' st' chunk) = channel st'
      \<or> (\<exists>info. channel (data_received ops split' st' chunk) = channel (deliver info st'))"
    by (rule channel_data_received)
  show "delivered (data_received ops split' st' chunk) \<le> delivered st' + 1"
    by (rule delivered_data_received)
  show "data_received APIFrame_ops split st (wire_frame payload @ rest)
      = (if payload = [] then st else deliver (split payload) st)\<lparr>data := rest\<rparr>"
    using received_complete [OF assms, of "[]" "wire_frame payload" split rest]
    by (simp add: in_progress_def handed_over_def)
qed

text \<open>
  C9, the theorem at an input that satisfies its hypotheses: two complete frames in one
  chunk; the second stays in the buffer.
\<close>

theorem one_frame_per_call_witness:
  "length [0x01 :: byte] < 65536
   \<and> frame (init False False False :: (APIFrame, byte list) xbee) = None
   \<and> data (init False False False :: (APIFrame, byte list) xbee) = []
   \<and> delivered (data_received APIFrame_ops (\<lambda>p. p) (init False False False)
        (wire_frame [0x01] @ wire_frame [0x02])) \<le> delivered (init False False False :: (APIFrame, byte list) xbee) + 1
   \<and> data_received APIFrame_ops (\<lambda>p. p) (init False False False)
        (wire_frame [0x01] @ wire_frame [0x02])
       = (init False False False) \<lparr>queue := [[0x01]], data := [0x7E, 0x00, 0x01, 0x02, 0xFD]\<rparr>"
proof -
  have h1: "length [0x01 :: byte] < 65536" by simp
  have h2: "frame (init False False False :: (APIFrame, byte list) xbee) = None"
    by (simp add: init_def)
  have h3: "data (init False False False :: (APIFrame, byte list) xbee) = []"
    by (simp add: init_def)
  have w: "wire_frame [0x02] = [0x7E, 0x00, 0x01, 0x02, 0xFD]"
    by (simp add: wire_frame_def checksum_def START_BYTE_def)
  have d: "(deliver [0x01 :: byte] (init False False False :: (APIFrame, byte list) xbee))\<lparr>data := [0x7E, 0x00, 0x01, 0x02, 0xFD]\<rparr>
      = (init False False False) \<lparr>queue := [[0x01]], data := [0x7E, 0x00, 0x01, 0x02, 0xFD]\<rparr>"
    by (simp add: deliver_def init_def)
  note t = one_frame_per_call [OF h1 h2 h3, of APIFrame_ops "\<lambda>p. p" "init False False False"
        "wire_frame [0x01] @ wire_frame [0x02]" "\<lambda>p. p" "wire_frame [0x02]"]
  have c1: "delivered (data_received APIFrame_ops (\<lambda>p. p) (init False False False)
        (wire_frame [0x01] @ wire_frame [0x02]))
      \<le> delivered (init False False False :: (APIFrame, byte list) xbee) + 1"
    using conjunct2 [OF t] by (rule conjunct1)
  have c2: "data_received APIFrame_ops (\<lambda>p. p) (init False False False)
        (wire_frame [0x01] @ wire_frame [0x02])
       = (init False False False) \<lparr>queue := [[0x01]], data := [0x7E, 0x00, 0x01, 0x02, 0xFD]\<rparr>"
    using conjunct2 [OF conjunct2 [OF t]] d by (simp add: w)
  show ?thesis
    by (intro conjI h1 h2 h3 c1 c2)
qed

text \<open>
  C1, at three valid frames in one chunk, fed to a new driver in pull mode: the call
  queues the first frame only and leaves the other two, complete, in the buffer. The first
  \<^verbatim>\<open>wait_read_frame\<close> returns the first frame; the second one finds the queue
  empty and suspends on Future 0.
\<close>

theorem three_frames_one_chunk:
  "data_received APIFrame_ops (\<lambda>p. p) (init False False False)
       [0x7E, 0x00, 0x01, 0x01, 0xFE, 0x7E, 0x00, 0x01, 0x02, 0xFD, 0x7E, 0x00, 0x01, 0x03, 0xFC]
     = (init False False False)
         \<lparr>queue := [[0x01]],
          data := [0x7E, 0x00, 0x01, 0x02, 0xFD, 0x7E, 0x00, 0x01, 0x03, 0xFC]\<rparr>
   \<and> wait_read_frame ((init False False False)
         \<lparr>queue := [[0x01]],
          data := [0x7E, 0x00, 0x01, 0x02, 0xFD, 0x7E, 0x00, 0x01, 0x03, 0xFC :: byte]\<rparr>
         :: (APIFrame, byte list) xbee)
     = (Returned [0x01],
        (init False False False)
          \<lparr>data := [0x7E, 0x00, 0x01, 0x02, 0xFD, 0x7E, 0x00, 0x01, 0x03, 0xFC]\<rparr>)
   \<and> fst (wait_read_frame ((init False False False)
          \<lparr>data := [0x7E, 0x00, 0x01, 0x02, 0xFD, 0x7E, 0x00, 0x01, 0x03, 0xFC :: byte]\<rparr>
          :: (APIFrame, byte list) xbee))
     = Awaiting 0"
  by (simp add: xbee_defs APIFrame_defs)

text \<open>
  C3, at a frame with a wrong checksum, fed to a new driver with a callback and an error
  callback: nothing is delivered and the frame in progress is cleared, but the only effect
  is the printed line; the error callback is not called. No call of
  \<^verbatim>\<open>data_received\<close> ever calls it.
\<close>

theorem checksum_failure_skips_error_callback:
  "data_received APIFrame_ops (\<lambda>p. p) (init True True False)
       [0x7E, 0x00, 0x02, 0x23, 0x41, 0x00]
     = (init True True False) \<lparr>printed := [''Bad frame checksum'']\<rparr>
   \<and> error_called (data_received APIFrame_ops (\<lambda>p. p) (init True True False)
       [0x7E, 0x00, 0x02, 0x23, 0x41, 0x00]) = []
   \<and> error_called (data_received ops split st chunk) = error_called st"
proof -
  have "data_received APIFrame_ops (\<lambda>p. p) (init True True False)
       [0x7E, 0x00, 0x02, 0x23, 0x41, 0x00]
     = (init True True False) \<lparr>printed := [''Bad frame checksum'']\<rparr>"
    by (simp add: xbee_defs APIFrame_defs)
  moreover have "error_called ((init True True False :: (APIFrame, byte list) xbee)
      \<lparr>printed := [''Bad frame checksum'']\<rparr>) = []"
    by (simp add: init_def)
  ultimately show ?thesis
    by (simp add: error_called_data_received)
qed

end
